theory Spec2Isabelle
  imports Main
begin

section \<open>JavaScript strings and objects\<close>

text \<open>
  A JavaScript string is a sequence of UTF-16 code units; a code unit is modelled as a
  natural number (every code unit of a real string is below 65536, which no definition
  below depends on). \<open>lit\<close> embeds an ASCII literal of the source.
\<close>

type_synonym jstring = "nat list"

definition lit :: "string \<Rightarrow> jstring" where
  "lit s = map of_char s"

text \<open>
  The code units that \<^verbatim>\<open>String.prototype.trim\<close> strips and that the regular expression
  class \<^verbatim>\<open>\s\<close> matches: the ECMAScript WhiteSpace and LineTerminator productions.
\<close>

definition is_ws :: "nat \<Rightarrow> bool" where
  "is_ws c \<longleftrightarrow>
     c = 9 \<or> c = 10 \<or> c = 11 \<or> c = 12 \<or> c = 13 \<or> c = 32 \<or> c = 160 \<or> c = 5760 \<or>
     (8192 \<le> c \<and> c \<le> 8202) \<or> c = 8232 \<or> c = 8233 \<or> c = 8239 \<or> c = 8287 \<or>
     c = 12288 \<or> c = 65279"

definition trim :: "jstring \<Rightarrow> jstring" where
  "trim s = rev (dropWhile is_ws (rev (dropWhile is_ws s)))"

text \<open>
  \<^verbatim>\<open>s.split(/\s+/)\<close>: the pieces of \<open>s\<close> between maximal runs of whitespace. A leading or a
  trailing run leaves an empty piece, and the empty string splits into one empty piece.
\<close>

function split_ws :: "jstring \<Rightarrow> jstring list" where
  "split_ws s =
     (case dropWhile (\<lambda>c. \<not> is_ws c) s of
        [] \<Rightarrow> [s]
      | _ # rest \<Rightarrow> takeWhile (\<lambda>c. \<not> is_ws c) s # split_ws (dropWhile is_ws rest))"
  by pat_completeness auto
termination
proof (relation "measure length")
  show "wf (measure (length :: jstring \<Rightarrow> nat))" by simp
next
  fix s :: jstring and c rest
  assume d: "dropWhile (\<lambda>c. \<not> is_ws c) s = c # rest"
  have "length (dropWhile is_ws rest) \<le> length rest"
    by (rule length_dropWhile_le)
  also have "length rest < length (dropWhile (\<lambda>c. \<not> is_ws c) s)"
    by (simp add: d)
  also have "\<dots> \<le> length s"
    by (rule length_dropWhile_le)
  finally show "(dropWhile is_ws rest, s) \<in> measure length"
    by simp
qed

declare split_ws.simps [simp del]

text \<open>\<^verbatim>\<open>s.includes(p)\<close> and \<^verbatim>\<open>s.startsWith(p)\<close> on strings, \<^verbatim>\<open>xs.join(sep)\<close> on arrays.\<close>

definition startsWith :: "jstring \<Rightarrow> jstring \<Rightarrow> bool" where
  "startsWith s p \<longleftrightarrow> take (length p) s = p"

fun str_includes :: "jstring \<Rightarrow> jstring \<Rightarrow> bool" where
  "str_includes [] p = (p = [])"
| "str_includes (c # cs) p = (startsWith (c # cs) p \<or> str_includes cs p)"

fun join :: "jstring \<Rightarrow> jstring list \<Rightarrow> jstring" where
  "join sep [] = []"
| "join sep [x] = x"
| "join sep (x # y # ys) = x @ sep @ join sep (y # ys)"

text \<open>\<^verbatim>\<open>xs[i]\<close> on an array: \<open>None\<close> is JavaScript's \<^verbatim>\<open>undefined\<close> out of range.\<close>

definition at_index :: "'a list \<Rightarrow> nat \<Rightarrow> 'a option" where
  "at_index xs i = (if i < length xs then Some (xs ! i) else None)"

text \<open>
  Property access \<^verbatim>\<open>obj[key]\<close> on an object literal. The literal's own properties are an
  association list in declaration order. A key that is not an own property is looked up
  on \<^verbatim>\<open>Object.prototype\<close>, whose members (functions, and the prototype object itself for
  \<^verbatim>\<open>__proto__\<close>) are all truthy and carry none of the properties the analyzer reads.
\<close>

definition object_prototype_keys :: "jstring list" where
  "object_prototype_keys = map lit
     [''constructor'', ''__defineGetter__'', ''__defineSetter__'', ''hasOwnProperty'',
      ''__lookupGetter__'', ''__lookupSetter__'', ''isPrototypeOf'',
      ''propertyIsEnumerable'', ''toString'', ''valueOf'', ''__proto__'',
      ''toLocaleString'']"

datatype 'a js_prop = Own 'a | Inherited | Absent

definition js_get :: "(jstring \<times> 'a) list \<Rightarrow> jstring \<Rightarrow> 'a js_prop" where
  "js_get obj k =
     (case map_of obj k of
        Some v \<Rightarrow> Own v
      | None \<Rightarrow> if k \<in> set object_prototype_keys then Inherited else Absent)"

section \<open>The command splitter\<close>

text \<open>
  \<^verbatim>\<open>parseCommand\<close> returns the object \<^verbatim>\<open>{ tool, args }\<close>, which every caller destructures
  at once: a pair here. \<^verbatim>\<open>split\<close> never returns an empty array, so \<^verbatim>\<open>parts[0]\<close> is always
  defined; the first branch of the \<open>case\<close> is not reachable.
\<close>

definition parseCommand :: "jstring \<Rightarrow> jstring \<times> jstring list" where
  "parseCommand command =
     (let trimmed = trim command in
      if trimmed = [] then ([], [])
      else (case split_ws trimmed of
              [] \<Rightarrow> ([], [])
            | p # ps \<Rightarrow> (p, ps)))"

section \<open>The pattern catalog\<close>

datatype severity = Low | Medium | High

text \<open>
  A catalog entry and a detected risk have the same shape in the source: an object with
  a \<^verbatim>\<open>flag\<close> or a \<^verbatim>\<open>pattern\<close> property (an absent property is \<open>None\<close>), a \<^verbatim>\<open>risk\<close> and a
  \<^verbatim>\<open>reason\<close>.
\<close>

record risk_item =
  flag :: "jstring option"
  pattern :: "jstring option"
  risk :: severity
  reason :: jstring

definition flag_item :: "string \<Rightarrow> severity \<Rightarrow> string \<Rightarrow> risk_item" where
  "flag_item f r why = \<lparr>flag = Some (lit f), pattern = None, risk = r, reason = lit why\<rparr>"

definition pattern_item :: "string \<Rightarrow> severity \<Rightarrow> string \<Rightarrow> risk_item" where
  "pattern_item p r why = \<lparr>flag = None, pattern = Some (lit p), risk = r, reason = lit why\<rparr>"

text \<open>
  The value stored under a subcommand key: an object that may have a \<^verbatim>\<open>risks\<close> array and
  may hold further objects under other keys (docker's \<^verbatim>\<open>system\<close> has none of its own and
  holds \<^verbatim>\<open>prune\<close>). The \<^verbatim>\<open>safer\<close> and \<^verbatim>\<open>reason\<close> texts of these objects are read nowhere
  and are left out.
\<close>

datatype sub_pattern =
  SubPattern (sp_risks: "risk_item list option") (sp_nested: "(jstring \<times> sub_pattern) list")

record tool_pattern =
  p_tool :: jstring
  p_risks :: "risk_item list option"
  p_subcommands :: "(jstring \<times> sub_pattern) list option"
  p_description :: jstring

definition riskPatterns :: "(jstring \<times> tool_pattern) list" where
  "riskPatterns =
   [(lit ''rm'', \<lparr>p_tool = lit ''rm'',
      p_risks = Some
        [flag_item ''-rf'' High ''Recursively deletes without confirmation'',
         flag_item ''-f'' High ''Forces deletion, ignores permissions'',
         flag_item ''-r'' Medium ''Recursive deletion; combine with -f for high risk''],
      p_subcommands = None,
      p_description = lit ''File deletion command''\<rparr>),
    (lit ''git'', \<lparr>p_tool = lit ''git'',
      p_risks = None,
      p_subcommands = Some
        [(lit ''push'', SubPattern (Some
            [flag_item ''--force'' High ''Overwrites remote history; may affect team'',
             flag_item ''-f'' High ''Same as --force; destructive to shared repo'']) []),
         (lit ''reset'', SubPattern (Some
            [flag_item ''--hard'' High ''Discards all uncommitted changes irreversibly'']) []),
         (lit ''clean'', SubPattern (Some
            [flag_item ''-f'' High ''Forces deletion of untracked files'',
             flag_item ''-fd'' High ''Deletes untracked files AND directories'']) [])],
      p_description = lit ''Git version control''\<rparr>),
    (lit ''docker'', \<lparr>p_tool = lit ''docker'',
      p_risks = None,
      p_subcommands = Some
        [(lit ''system'', SubPattern None
            [(lit ''prune'', SubPattern (Some
               [flag_item ''-a'' High ''Removes all unused images (may be intentional)'',
                flag_item ''--volumes'' High ''Deletes unused volumes with potential data''])
               [])]),
         (lit ''rmi'', SubPattern (Some
            [flag_item ''-f'' High ''Force removes image, breaks dependent containers'']) []),
         (lit ''rm'', SubPattern (Some
            [flag_item ''-f'' Medium ''Force removes container; data loss possible'']) [])],
      p_description = lit ''Docker container/image operations''\<rparr>),
    (lit ''dd'', \<lparr>p_tool = lit ''dd'',
      p_risks = Some
        [pattern_item ''if=/dev/'' High ''Reading from raw disk device'',
         pattern_item ''of=/dev/'' High
           ''Writing to raw disk device; IRREVERSIBLE data corruption''],
      p_subcommands = None,
      p_description = lit ''Disk/device data copy; extreme risk with wrong arguments''\<rparr>),
    (lit ''chmod'', \<lparr>p_tool = lit ''chmod'',
      p_risks = Some
        [flag_item ''777'' High ''World-readable/writable; major security vulnerability'',
         flag_item ''755'' Low ''Standard; acceptable for most executables''],
      p_subcommands = None,
      p_description = lit ''File permission change''\<rparr>),
    (lit ''chown'', \<lparr>p_tool = lit ''chown'',
      p_risks = Some
        [flag_item ''-R'' High ''Recursively changes ownership; can break system access''],
      p_subcommands = None,
      p_description = lit ''Change file owner''\<rparr>),
    (lit ''sudo'', \<lparr>p_tool = lit ''sudo'',
      p_risks = Some
        [pattern_item ''sudo'' Medium
           ''Executing with root privileges; verify command is safe''],
      p_subcommands = None,
      p_description = lit ''Elevated privilege execution''\<rparr>),
    (lit ''curl'', \<lparr>p_tool = lit ''curl'',
      p_risks = Some
        [flag_item ''| sh'' High ''Piping to shell executes arbitrary code from URL'',
         flag_item ''| bash'' High ''Piping to bash executes arbitrary code from URL''],
      p_subcommands = None,
      p_description = lit ''HTTP client; can execute remote code if piped''\<rparr>),
    (lit ''wget'', \<lparr>p_tool = lit ''wget'',
      p_risks = Some
        [flag_item ''| sh'' High ''Piping to shell executes arbitrary code''],
      p_subcommands = None,
      p_description = lit ''File downloader; dangerous if output is executed''\<rparr>)]"

section \<open>The risk matcher and the severity aggregator\<close>

record risk_analysis =
  found :: bool
  ra_tool :: jstring
  ra_risks :: "risk_item list"
  description :: "jstring option"

text \<open>
  The \<^verbatim>\<open>forEach\<close> over a tool's own \<^verbatim>\<open>risks\<close>: an entry is pushed when its \<^verbatim>\<open>flag\<close> is a
  truthy string that is an element of \<^verbatim>\<open>args\<close>, and again when its \<^verbatim>\<open>pattern\<close> is a truthy
  string that occurs in the joined arguments.
\<close>

fun direct_risks :: "risk_item list \<Rightarrow> jstring list \<Rightarrow> jstring \<Rightarrow> risk_item list" where
  "direct_risks [] args argStr = []"
| "direct_risks (riskItem # items) args argStr =
     (case flag riskItem of
        Some f \<Rightarrow>
          if f \<noteq> [] \<and> f \<in> set args
          then [\<lparr>flag = Some f, pattern = None, risk = risk riskItem, reason = reason riskItem\<rparr>]
          else []
      | None \<Rightarrow> []) @
     (case pattern riskItem of
        Some p \<Rightarrow>
          if p \<noteq> [] \<and> str_includes argStr p
          then [\<lparr>flag = None, pattern = Some p, risk = risk riskItem, reason = reason riskItem\<rparr>]
          else []
      | None \<Rightarrow> []) @
     direct_risks items args argStr"

text \<open>
  The \<^verbatim>\<open>forEach\<close> over a subcommand's \<^verbatim>\<open>risks\<close>: only the membership test on the flag; an
  entry without a flag is never an element of \<^verbatim>\<open>args\<close>.
\<close>

fun subcommand_risks :: "risk_item list \<Rightarrow> jstring list \<Rightarrow> risk_item list" where
  "subcommand_risks [] args = []"
| "subcommand_risks (riskItem # items) args =
     (case flag riskItem of
        Some f \<Rightarrow>
          if f \<in> set args
          then [\<lparr>flag = Some f, pattern = None, risk = risk riskItem, reason = reason riskItem\<rparr>]
          else []
      | None \<Rightarrow> []) @
     subcommand_risks items args"

text \<open>
  The block of \<^verbatim>\<open>analyzeRisks\<close> for tools with \<^verbatim>\<open>subcommands\<close>: the value under the key
  \<^verbatim>\<open>args[0]\<close> is used when it is an object with a \<^verbatim>\<open>risks\<close> array. A member inherited from
  \<^verbatim>\<open>Object.prototype\<close> has no \<^verbatim>\<open>risks\<close>.
\<close>

definition subcommand_part :: "tool_pattern \<Rightarrow> jstring list \<Rightarrow> risk_item list" where
  "subcommand_part pat args =
     (case p_subcommands pat of
        None \<Rightarrow> []
      | Some subcommands \<Rightarrow>
          (case at_index args 0 of
             None \<Rightarrow> []
           | Some subCmd \<Rightarrow>
               if subCmd = [] then []
               else (case js_get subcommands subCmd of
                       Own subPattern \<Rightarrow>
                         (case sp_risks subPattern of
                            Some items \<Rightarrow> subcommand_risks items args
                          | None \<Rightarrow> [])
                     | Inherited \<Rightarrow> []
                     | Absent \<Rightarrow> [])))"

definition analyzeRisks :: "jstring \<Rightarrow> jstring list \<Rightarrow> risk_analysis" where
  "analyzeRisks tool args =
     (case js_get riskPatterns tool of
        Absent \<Rightarrow> \<lparr>found = False, ra_tool = tool, ra_risks = [], description = None\<rparr>
      | Inherited \<Rightarrow> \<lparr>found = True, ra_tool = tool, ra_risks = [], description = None\<rparr>
      | Own pat \<Rightarrow>
          (let argStr = join (lit '' '') args;
               direct = (case p_risks pat of
                           Some items \<Rightarrow> direct_risks items args argStr
                         | None \<Rightarrow> [])
           in \<lparr>found = True, ra_tool = tool, ra_risks = direct @ subcommand_part pat args,
               description = Some (p_description pat)\<rparr>))"

definition getRiskLevel :: "risk_item list \<Rightarrow> severity" where
  "getRiskLevel rs =
     (if rs = [] then Low
      else if list_ex (\<lambda>r. risk r = High) rs then High
      else if list_ex (\<lambda>r. risk r = Medium) rs then Medium
      else Low)"

text \<open>
  The cross-cutting checks of \<^verbatim>\<open>checkPipeRisks\<close>, which reads the raw command too. Its
  parameter \<^verbatim>\<open>riskAnalysis\<close>, like that of \<^verbatim>\<open>generateExplanation\<close> and \<^verbatim>\<open>generateDryRun\<close>, is
  never read and is left out.
\<close>

definition checkPipeRisks :: "jstring \<Rightarrow> jstring \<Rightarrow> jstring list \<Rightarrow> risk_item list" where
  "checkPipeRisks command tool args =
     (if (tool = lit ''curl'' \<or> tool = lit ''wget'') \<and>
         (str_includes command (lit ''| sh'') \<or> str_includes command (lit ''| bash''))
      then [\<lparr>flag = None,
             pattern = Some (if str_includes command (lit ''| sh'')
                             then lit ''| sh'' else lit ''| bash''),
             risk = High,
             reason = lit ''Piping to shell executes downloaded content without inspection''\<rparr>]
      else []) @
     (if tool = lit ''docker'' \<and> at_index args 0 = Some (lit ''system'') \<and>
         at_index args 1 = Some (lit ''prune'') \<and> lit ''-a'' \<in> set args
      then [\<lparr>flag = Some (lit ''-a''), pattern = None, risk = High,
             reason = lit ''Removes all unused images including tagged ones''\<rparr>]
      else [])"

section \<open>The suggestion resolver\<close>

record suggestion =
  dangerous :: jstring
  safer :: jstring
  s_explanation :: jstring

definition suggestions :: "(jstring \<times> suggestion) list" where
  "suggestions =
   [(lit ''rm -rf'',
       \<lparr>dangerous = lit ''rm -rf <path>'', safer = lit ''rm -ri <path>'',
        s_explanation = lit ''Interactive mode prompts before each deletion''\<rparr>),
    (lit ''rm --force --recursive'',
       \<lparr>dangerous = lit ''rm --force --recursive <path>'', safer = lit ''rm -ri <path>'',
        s_explanation = lit ''Interactive mode prompts before each deletion''\<rparr>),
    (lit ''git push --force'',
       \<lparr>dangerous = lit ''git push --force'', safer = lit ''git push --force-with-lease'',
        s_explanation =
          lit ''Only force-push if remote hasn't changed; safer for shared repos''\<rparr>),
    (lit ''git reset --hard'',
       \<lparr>dangerous = lit ''git reset --hard'',
        safer = lit ''Create backup branch first: git branch backup && git reset --hard'',
        s_explanation = lit ''Preserves commit history in case you need to recover''\<rparr>),
    (lit ''docker system prune -a'',
       \<lparr>dangerous = lit ''docker system prune -a'',
        safer = lit ''docker system prune (without -a) or docker image prune'',
        s_explanation =
          lit ''Without -a, only removes dangling images. Safer for production''\<rparr>),
    (lit ''chmod 777'',
       \<lparr>dangerous = lit ''chmod 777 <path>'',
        safer = lit ''chmod 755 <path> (executables) or chmod 644 <path> (files)'',
        s_explanation = lit ''Restricts access to owner+group, not world-readable''\<rparr>),
    (lit ''curl | sh'',
       \<lparr>dangerous = lit ''curl <url> | sh'',
        safer = lit ''curl <url> -o script.sh && cat script.sh && sh script.sh'',
        s_explanation = lit ''Inspect the script before executing it''\<rparr>)]"

text \<open>
  The loop of \<^verbatim>\<open>getSuggestion\<close> over \<^verbatim>\<open>Object.entries(suggestions)\<close>, which lists the own
  properties in declaration order (no key is an array index). \<open>None\<close> is \<^verbatim>\<open>null\<close>.
\<close>

fun first_suggestion :: "(jstring \<times> suggestion) list \<Rightarrow> jstring \<Rightarrow> suggestion option" where
  "first_suggestion [] command = None"
| "first_suggestion ((key, suggestion) # entries) command =
     (if str_includes command key then Some suggestion
      else first_suggestion entries command)"

definition getSuggestion :: "jstring \<Rightarrow> suggestion option" where
  "getSuggestion command = first_suggestion suggestions command"

definition getContextualSuggestion :: "jstring \<Rightarrow> jstring list \<Rightarrow> jstring option" where
  "getContextualSuggestion tool args =
     (if tool = lit ''npm'' \<and> lit ''install'' \<in> set args then
        Some (lit ''Consider using npm ci for CI/CD (installs exact versions from package-lock.json)'')
      else if tool = lit ''npm'' \<and> lit ''uninstall'' \<in> set args then
        Some (lit ''Backup your node_modules or use npm ci to restore from package-lock.json if needed'')
      else if tool = lit ''docker'' \<and> at_index args 0 = Some (lit ''build'') \<and>
              lit ''--no-cache'' \<in> set args then
        Some (lit ''Building without cache; this will take longer. Only use if you need fresh layers'')
      else if tool = lit ''git'' \<and> lit ''--amend'' \<in> set args then
        Some (lit ''Amending commits rewrites history. Only do this before pushing'')
      else None)"

section \<open>The explanation generator\<close>

text \<open>\<^verbatim>\<open>argStr[0] || fallback\<close>: the first code unit as a string, which is never falsy.\<close>

definition first_char_or :: "jstring \<Rightarrow> jstring \<Rightarrow> jstring" where
  "first_char_or argStr fallback = (case argStr of [] \<Rightarrow> fallback | c # _ \<Rightarrow> [c])"

definition handleGitExplanation :: "jstring \<Rightarrow> jstring" where
  "handleGitExplanation argStr =
     (if startsWith argStr (lit ''push'') then
        (if str_includes argStr (lit ''--force'')
         then lit ''Force-push: overwrites remote history. Risky on shared repos.''
         else lit ''Uploads local commits to remote.'')
      else if startsWith argStr (lit ''reset'') then
        (if str_includes argStr (lit ''--hard'')
         then lit ''Hard reset: discards ALL uncommitted changes irreversibly.''
         else lit ''Resets to specified commit (soft/mixed mode).'')
      else if startsWith argStr (lit ''clean'') then
        (if str_includes argStr (lit ''-f'')
         then lit ''Force-clean: deletes untracked files.''
         else lit ''Shows what would be deleted.'')
      else lit ''Git operation.'')"

definition handleDockerExplanation :: "jstring \<Rightarrow> jstring" where
  "handleDockerExplanation argStr =
     (if startsWith argStr (lit ''system prune'') then
        (if str_includes argStr (lit ''-a'')
         then lit ''Removes all unused images (including tagged). High-impact.''
         else lit ''Removes only dangling resources.'')
      else if startsWith argStr (lit ''rmi'') then
        lit ''Permanently deletes image. Dependent containers will break.''
      else if startsWith argStr (lit ''rm'') then
        lit ''Deletes container(s). Data lost unless volume persists.''
      else lit ''Docker operation.'')"

definition handleNpmExplanation :: "jstring \<Rightarrow> jstring" where
  "handleNpmExplanation argStr =
     (if str_includes argStr (lit ''install'') then
        lit ''Installs npm packages. Can modify package-lock.json and node_modules.''
      else if str_includes argStr (lit ''uninstall'') then
        lit ''Removes npm packages from node_modules and package.json.''
      else if str_includes argStr (lit ''publish'') then
        lit ''Publishes package to npm registry. PERMANENT; cannot be undone easily.''
      else lit ''npm package manager operation.'')"

text \<open>The object literal \<^verbatim>\<open>explanations\<close> that \<^verbatim>\<open>generateExplanation\<close> builds on every call.\<close>

definition explanations :: "jstring \<Rightarrow> (jstring \<times> jstring) list" where
  "explanations argStr =
   [(lit ''rm'', lit ''Deletes files/directories. '' @
       (if str_includes argStr (lit ''-rf'')
        then lit ''Recursive mode (-rf) deletes everything in path WITHOUT confirmation.''
        else if str_includes argStr (lit ''-r'')
        then lit ''Recursive mode (-r) deletes directories and contents.''
        else lit ''Deletes specified files.'')),
    (lit ''mv'', lit ''Moves/renames files. If target exists, it will be overwritten.''),
    (lit ''cp'', lit ''Copies files. '' @
       (if str_includes argStr (lit ''-r'')
        then lit ''Recursive mode (-r) copies directories.'' else [])),
    (lit ''git'', lit ''Git command: '' @ first_char_or argStr (lit ''unknown'') @ lit ''. '' @
       handleGitExplanation argStr),
    (lit ''docker'', lit ''Docker command: '' @ first_char_or argStr (lit ''unknown'') @
       lit ''. '' @ handleDockerExplanation argStr),
    (lit ''chmod'', lit ''Changes file permissions. '' @
       (case argStr of
          [] \<Rightarrow> lit ''Permission change''
        | c # _ \<Rightarrow> lit ''Setting to '' @ [c]) @ lit ''.''),
    (lit ''chown'', lit ''Changes file owner. '' @
       (if str_includes argStr (lit ''-R'')
        then lit ''Recursive (-R) applies to all subdirectories.'' else [])),
    (lit ''dd'',
       lit ''Low-level disk copy utility. Extremely dangerous with wrong device parameters.''),
    (lit ''curl'', lit ''Fetches content from URL. '' @
       (if str_includes argStr (lit ''|'')
        then lit ''Piping to shell (| sh/bash) executes downloaded content!''
        else lit ''Shows content or downloads file.'')),
    (lit ''wget'', lit ''Downloads files from URL. '' @
       (if str_includes argStr (lit ''|'')
        then lit ''Piping to shell executes the downloaded file!''
        else lit ''Saves to disk.'')),
    (lit ''npm'', handleNpmExplanation argStr),
    (lit ''node'', lit ''Executes JavaScript. '' @
       (if str_includes argStr (lit ''-e'')
        then lit ''Inline code execution with -e flag.''
        else lit ''Runs script file.''))]"

text \<open>
  What \<^verbatim>\<open>generateExplanation\<close> returns is \<^verbatim>\<open>explanations[tool] || ...\<close>: a string, or the
  truthy member of \<^verbatim>\<open>Object.prototype\<close> that the lookup finds under the tool's name.
\<close>

datatype js_value = JString jstring | PrototypeMember jstring

definition generateExplanation :: "jstring \<Rightarrow> jstring list \<Rightarrow> js_value" where
  "generateExplanation tool args =
     (let argStr = join (lit '' '') args in
      case js_get (explanations argStr) tool of
        Own text \<Rightarrow>
          if text \<noteq> [] then JString text
          else JString (lit ''Executes: '' @ tool @ lit '' '' @ argStr)
      | Inherited \<Rightarrow> PrototypeMember tool
      | Absent \<Rightarrow> JString (lit ''Executes: '' @ tool @ lit '' '' @ argStr))"

text \<open>\<^verbatim>\<open>s || fallback\<close> on a string: the empty string is falsy.\<close>

definition or_else :: "jstring \<Rightarrow> jstring \<Rightarrow> jstring" where
  "or_else s fallback = (if s = [] then fallback else s)"

definition generateDryRun :: "jstring \<Rightarrow> jstring list \<Rightarrow> jstring" where
  "generateDryRun tool args =
     (let argStr = join (lit '' '') args in
      if tool = lit ''rm'' then
        lit ''Would delete: '' @
        or_else (join (lit '', '') (filter (\<lambda>a. \<not> startsWith a (lit ''-'')) args))
                (lit ''[target path]'') @
        (if lit ''-rf'' \<in> set args then lit '' (recursively, with all contents)'' else []) @
        lit '' WITHOUT recovery.''
      else if tool = lit ''git'' \<and> at_index args 0 = Some (lit ''push'') \<and>
              lit ''--force'' \<in> set args then
        lit ''Would overwrite remote history with local commits. Team members with old clones would need to force-pull.''
      else if tool = lit ''git'' \<and> at_index args 0 = Some (lit ''reset'') \<and>
              lit ''--hard'' \<in> set args then
        lit ''Would discard all uncommitted changes. Files would revert to last commit state.''
      else if tool = lit ''docker'' \<and> at_index args 0 = Some (lit ''system'') \<and>
              at_index args 1 = Some (lit ''prune'') then
        lit ''Would remove Docker '' @
        (if lit ''-a'' \<in> set args then lit ''images (including used ones)''
         else lit ''unused resources'') @
        lit ''. Freed space would be reclaimed.''
      else if tool = lit ''chmod'' then
        lit ''Would set permissions to '' @
        (case at_index args 0 of None \<Rightarrow> lit ''undefined'' | Some perm \<Rightarrow> perm) @
        lit '' on '' @ or_else (join (lit '', '') (drop 1 args)) (lit ''[target]'') @ lit ''.''
      else lit ''Would execute: '' @ tool @ lit '' '' @ argStr)"

section \<open>The analysis\<close>

text \<open>
  The result object. \<open>directedSuggestion\<close> is \<open>None\<close> both for \<^verbatim>\<open>null\<close> and in the result
  for an empty command, whose object literal has no such property.
\<close>

record analysis_result =
  tool :: jstring
  command :: jstring
  riskLevel :: severity
  risks :: "risk_item list"
  res_suggestions :: "jstring list"
  explanation :: js_value
  dryRun :: jstring
  directedSuggestion :: "suggestion option"

definition analyzeCommand :: "jstring \<Rightarrow> analysis_result" where
  "analyzeCommand cmd =
     (case parseCommand cmd of (t, args) \<Rightarrow>
        if t = [] then
          \<lparr>tool = [], command = cmd, riskLevel = Low, risks = [], res_suggestions = [],
           explanation = JString (lit ''Empty command.''),
           dryRun = lit ''No operation would occur.'', directedSuggestion = None\<rparr>
        else
          (let riskAnalysis = analyzeRisks t args;
               pipeRisks = checkPipeRisks cmd t args;
               allRisks = ra_risks riskAnalysis @ pipeRisks;
               directed = getSuggestion cmd;
               contextual = getContextualSuggestion t args
           in \<lparr>tool = t, command = cmd, riskLevel = getRiskLevel allRisks, risks = allRisks,
               res_suggestions =
                 (case directed of None \<Rightarrow> [] | Some d \<Rightarrow> [s_explanation d]) @
                 (case contextual of None \<Rightarrow> [] | Some c \<Rightarrow> if c = [] then [] else [c]),
               explanation = generateExplanation t args,
               dryRun = generateDryRun t args,
               directedSuggestion = directed\<rparr>))"

section \<open>The order on severities\<close>

text \<open>
  The total order low < medium < high of the specification, as a rank, and the maximum
  of a list of severities under it (low for the empty list), written from the
  specification's words to be compared with \<open>getRiskLevel\<close>.
\<close>

fun sev_rank :: "severity \<Rightarrow> nat" where
  "sev_rank Low = 0"
| "sev_rank Medium = 1"
| "sev_rank High = 2"

definition sev_max :: "severity \<Rightarrow> severity \<Rightarrow> severity" where
  "sev_max a b = (if sev_rank a < sev_rank b then b else a)"

definition max_severity :: "severity list \<Rightarrow> severity" where
  "max_severity ss = foldr sev_max ss Low"

section \<open>Facts about strings\<close>

lemma lit_eq_iff [simp]: "lit a = lit b \<longleftrightarrow> a = b"
  unfolding lit_def by (rule inj_map_eq_map) (rule inj_of_char)

lemma lit_eq_Nil_iff [simp]: "lit a = [] \<longleftrightarrow> a = []" "[] = lit a \<longleftrightarrow> a = []"
  by (auto simp: lit_def)

lemma trim_all_ws: "\<forall>c\<in>set s. is_ws c \<Longrightarrow> trim s = []"
proof -
  assume "\<forall>c\<in>set s. is_ws c"
  then have d: "dropWhile is_ws s = []"
    by simp
  show ?thesis
    unfolding trim_def d by simp
qed

lemmas run_parse = parseCommand_def trim_def lit_def is_ws_def split_ws.simps

lemmas run_analyze =
  analyzeCommand_def analyzeRisks_def subcommand_part_def js_get_def riskPatterns_def
  flag_item_def pattern_item_def checkPipeRisks_def getRiskLevel_def at_index_def Let_def

section \<open>Severity aggregation\<close>

lemma max_severity_Cons: "max_severity (s # ss) = sev_max s (max_severity ss)"
  by (simp add: max_severity_def)

lemma getRiskLevel_eq_max: "getRiskLevel rs = max_severity (map risk rs)"
proof (induction rs)
  case Nil
  show ?case by (simp add: getRiskLevel_def max_severity_def)
next
  case (Cons r rs)
  have step: "getRiskLevel (r # rs) = sev_max (risk r) (getRiskLevel rs)"
    by (cases "risk r") (auto simp: getRiskLevel_def sev_max_def)
  show ?case
    by (simp add: step Cons.IH max_severity_Cons)
qed

lemma getRiskLevel_upper: "r \<in> set rs \<Longrightarrow> sev_rank (risk r) \<le> sev_rank (getRiskLevel rs)"
  by (cases "risk r") (auto simp: getRiskLevel_def list_ex_iff)

lemma getRiskLevel_attained: "rs \<noteq> [] \<Longrightarrow> \<exists>r\<in>set rs. risk r = getRiskLevel rs"
proof -
  assume ne: "rs \<noteq> []"
  then obtain r0 where r0: "r0 \<in> set rs" by (cases rs) auto
  show ?thesis
  proof (cases "list_ex (\<lambda>r. risk r = High) rs")
    case True
    then show ?thesis using ne by (auto simp: getRiskLevel_def list_ex_iff)
  next
    case nh: False
    show ?thesis
    proof (cases "list_ex (\<lambda>r. risk r = Medium) rs")
      case True
      then show ?thesis using ne nh by (auto simp: getRiskLevel_def list_ex_iff)
    next
      case False
      with nh r0 have "risk r0 = Low"
        by (cases "risk r0") (auto simp: list_ex_iff)
      then show ?thesis using ne nh False r0 by (auto simp: getRiskLevel_def)
    qed
  qed
qed

lemma analyzeCommand_riskLevel:
  "riskLevel (analyzeCommand c) = getRiskLevel (risks (analyzeCommand c))"
  by (simp add: analyzeCommand_def getRiskLevel_def Let_def split: prod.splits)

text \<open>
  Claim C1. For every command string, the \<open>riskLevel\<close> of the analysis result is the
  maximum severity among the result's findings under the order low < medium < high: it
  is low when there are no findings, no finding is more severe than it, some finding
  has exactly that severity when there is one, and it equals the maximum computed the
  way the specification words it.
\<close>

theorem riskLevel_is_max_severity:
  "(risks (analyzeCommand c) = [] \<longrightarrow> riskLevel (analyzeCommand c) = Low) \<and>
   (\<forall>f\<in>set (risks (analyzeCommand c)).
      sev_rank (risk f) \<le> sev_rank (riskLevel (analyzeCommand c))) \<and>
   (risks (analyzeCommand c) \<noteq> [] \<longrightarrow>
      (\<exists>f\<in>set (risks (analyzeCommand c)). risk f = riskLevel (analyzeCommand c))) \<and>
   riskLevel (analyzeCommand c) = max_severity (map risk (risks (analyzeCommand c)))"
proof -
  let ?r = "analyzeCommand c"
  have lvl: "riskLevel ?r = getRiskLevel (risks ?r)"
    by (rule analyzeCommand_riskLevel)
  have "risks ?r = [] \<longrightarrow> riskLevel ?r = Low"
    by (simp add: lvl getRiskLevel_def)
  moreover have "\<forall>f\<in>set (risks ?r). sev_rank (risk f) \<le> sev_rank (riskLevel ?r)"
    by (simp add: lvl getRiskLevel_upper)
  moreover have "risks ?r \<noteq> [] \<longrightarrow> (\<exists>f\<in>set (risks ?r). risk f = riskLevel ?r)"
    by (simp add: lvl getRiskLevel_attained)
  moreover have "riskLevel ?r = max_severity (map risk (risks ?r))"
    by (simp add: lvl getRiskLevel_eq_max)
  ultimately show ?thesis by blast
qed

lemma parse_rm_r_f:
  "parseCommand (lit ''rm -r -f build'') = (lit ''rm'', [lit ''-r'', lit ''-f'', lit ''build''])"
  by (simp add: run_parse)

lemma risks_rm_r_f:
  "risks (analyzeCommand (lit ''rm -r -f build'')) =
     [flag_item ''-f'' High ''Forces deletion, ignores permissions'',
      flag_item ''-r'' Medium ''Recursive deletion; combine with -f for high risk'']"
  unfolding analyzeCommand_def parse_rm_r_f
  by (simp add: run_analyze)

theorem riskLevel_is_max_severity_witness:
  "risks (analyzeCommand (lit ''rm -r -f build'')) \<noteq> [] \<and>
   map risk (risks (analyzeCommand (lit ''rm -r -f build''))) = [High, Medium] \<and>
   riskLevel (analyzeCommand (lit ''rm -r -f build'')) = High"
  using riskLevel_is_max_severity [of "lit ''rm -r -f build''"]
  by (simp add: risks_rm_r_f flag_item_def max_severity_def sev_max_def)

section \<open>Empty commands\<close>

text \<open>
  Claim C7. For every input that is empty or consists of whitespace only, the analysis
  returns the degenerate result: the empty tool, severity low, no findings, the
  explanation "Empty command." and the dry-run "No operation would occur.".
\<close>

theorem empty_command_result:
  "\<forall>c\<in>set s. is_ws c \<Longrightarrow>
   analyzeCommand s =
     \<lparr>tool = [], command = s, riskLevel = Low, risks = [], res_suggestions = [],
      explanation = JString (lit ''Empty command.''),
      dryRun = lit ''No operation would occur.'', directedSuggestion = None\<rparr>"
  by (simp add: analyzeCommand_def parseCommand_def trim_all_ws)

theorem empty_command_result_witness:
  "list_all is_ws (lit ''   '') \<and>
   tool (analyzeCommand (lit ''   '')) = [] \<and>
   riskLevel (analyzeCommand (lit ''   '')) = Low \<and>
   risks (analyzeCommand (lit ''   '')) = [] \<and>
   explanation (analyzeCommand (lit ''   '')) = JString (lit ''Empty command.'') \<and>
   dryRun (analyzeCommand (lit ''   '')) = lit ''No operation would occur.''"
proof -
  have h: "\<forall>c\<in>set (lit ''   ''). is_ws c"
    by (simp add: lit_def is_ws_def)
  show ?thesis
    using h empty_command_result [OF h] by (simp add: list_all_iff)
qed


section \<open>Facts about substrings and the splitter\<close>

lemma startsWith_iff: "startsWith s p \<longleftrightarrow> (\<exists>post. s = p @ post)"
proof
  assume "startsWith s p"
  then have "s = p @ drop (length p) s"
    by (metis append_take_drop_id startsWith_def)
  then show "\<exists>post. s = p @ post" ..
next
  assume "\<exists>post. s = p @ post"
  then show "startsWith s p"
    by (auto simp: startsWith_def)
qed

lemma str_includes_iff: "str_includes s p \<longleftrightarrow> (\<exists>pre post. s = pre @ p @ post)"
proof (induction s)
  case Nil
  show ?case by auto
next
  case (Cons c cs)
  show ?case
  proof
    assume "str_includes (c # cs) p"
    then consider "startsWith (c # cs) p" | "str_includes cs p" by auto
    then show "\<exists>pre post. c # cs = pre @ p @ post"
    proof cases
      case 1
      then obtain post where "c # cs = p @ post"
        by (auto simp: startsWith_iff)
      then have "c # cs = [] @ p @ post" by simp
      then show ?thesis by blast
    next
      case 2
      with Cons.IH obtain pre post where "cs = pre @ p @ post" by auto
      then have "c # cs = (c # pre) @ p @ post" by simp
      then show ?thesis by blast
    qed
  next
    assume "\<exists>pre post. c # cs = pre @ p @ post"
    then obtain pre post where eq: "c # cs = pre @ p @ post" by auto
    show "str_includes (c # cs) p"
    proof (cases pre)
      case Nil
      with eq have "startsWith (c # cs) p"
        by (auto simp: startsWith_iff)
      then show ?thesis by simp
    next
      case (Cons d pre')
      with eq have "cs = pre' @ p @ post" by simp
      with Cons.IH have "str_includes cs p" by auto
      then show ?thesis by simp
    qed
  qed
qed

lemma split_ws_not_Nil: "split_ws s \<noteq> []"
  by (subst split_ws.simps) (simp split: list.splits)

lemma split_ws_tokens: "t \<in> set (split_ws s) \<Longrightarrow> c \<in> set t \<Longrightarrow> \<not> is_ws c"
proof (induction s rule: split_ws.induct)
  case (1 s)
  show ?case
  proof (cases "dropWhile (\<lambda>c. \<not> is_ws c) s")
    case Nil
    then have all: "\<forall>x\<in>set s. \<not> is_ws x"
      by (simp add: dropWhile_eq_Nil_conv)
    have "split_ws s = [s]"
      by (subst split_ws.simps) (simp only: Nil list.simps)
    with "1.prems" all show ?thesis by simp
  next
    case (Cons d rest)
    have sp: "split_ws s =
        takeWhile (\<lambda>c. \<not> is_ws c) s # split_ws (dropWhile is_ws rest)"
      by (subst split_ws.simps) (simp only: Cons list.simps)
    from "1.prems"(1) sp consider "t = takeWhile (\<lambda>c. \<not> is_ws c) s"
      | "t \<in> set (split_ws (dropWhile is_ws rest))" by auto
    then show ?thesis
    proof cases
      case 1
      with "1.prems"(2) show ?thesis
        by (auto dest: set_takeWhileD)
    next
      case 2
      then show ?thesis
        using "1.IH" [OF Cons] "1.prems"(2) by blast
    qed
  qed
qed

lemma parseCommand_tokens:
  assumes "parseCommand c = (t, args)" and "a \<in> set (t # args)" and "ch \<in> set a"
  shows "\<not> is_ws ch"
proof (cases "trim c = []")
  case True
  with assms show ?thesis
    by (auto simp: parseCommand_def)
next
  case False
  obtain p ps where sp: "split_ws (trim c) = p # ps"
    using split_ws_not_Nil [of "trim c"] by (cases "split_ws (trim c)") auto
  with False assms(1) have "t # args = split_ws (trim c)"
    by (auto simp: parseCommand_def)
  with assms(2,3) show ?thesis
    using split_ws_tokens by metis
qed

section \<open>Facts about the matcher\<close>

lemma direct_risks_flag:
  "f \<in> set (direct_risks items args argStr) \<Longrightarrow> flag f = Some fl \<Longrightarrow> fl \<in> set args"
  by (induction items) (auto split: option.splits if_splits)

lemma direct_risks_pattern:
  "f \<in> set (direct_risks items args argStr) \<Longrightarrow> pattern f = Some p \<Longrightarrow>
   \<exists>e\<in>set items. pattern e = Some p"
  by (induction items) (auto split: option.splits if_splits)

lemma direct_risks_hit:
  "e \<in> set items \<Longrightarrow> flag e = Some fl \<Longrightarrow> fl \<noteq> [] \<Longrightarrow> fl \<in> set args \<Longrightarrow>
   \<lparr>flag = Some fl, pattern = None, risk = risk e, reason = reason e\<rparr>
     \<in> set (direct_risks items args argStr)"
  by (induction items) auto

lemma subcommand_risks_flag:
  "f \<in> set (subcommand_risks items args) \<Longrightarrow> flag f = Some fl \<Longrightarrow> fl \<in> set args"
  by (induction items) (auto split: option.splits if_splits)

lemma subcommand_risks_pattern:
  "f \<in> set (subcommand_risks items args) \<Longrightarrow> pattern f = None"
  by (induction items) (auto split: option.splits if_splits)

lemma subcommand_risks_hit:
  "e \<in> set items \<Longrightarrow> flag e = Some fl \<Longrightarrow> fl \<in> set args \<Longrightarrow>
   \<lparr>flag = Some fl, pattern = None, risk = risk e, reason = reason e\<rparr>
     \<in> set (subcommand_risks items args)"
  by (induction items) auto

lemma js_get_Own: "js_get obj k = Own v \<longleftrightarrow> map_of obj k = Some v"
  by (simp add: js_get_def split: option.splits)

lemma analyzeRisks_Own:
  "map_of riskPatterns t = Some pat \<Longrightarrow>
   ra_risks (analyzeRisks t args) =
     (case p_risks pat of
        Some items \<Rightarrow> direct_risks items args (join (lit '' '') args)
      | None \<Rightarrow> []) @ subcommand_part pat args"
  by (simp add: analyzeRisks_def js_get_def Let_def)

lemma analyzeRisks_None:
  "map_of riskPatterns t = None \<Longrightarrow> ra_risks (analyzeRisks t args) = []"
  by (simp add: analyzeRisks_def js_get_def)

lemma subcommand_part_elim:
  assumes "f \<in> set (subcommand_part pat args)"
  obtains subcommands subCmd subPattern items where
    "p_subcommands pat = Some subcommands" and "at_index args 0 = Some subCmd" and
    "map_of subcommands subCmd = Some subPattern" and "sp_risks subPattern = Some items" and
    "f \<in> set (subcommand_risks items args)"
proof (cases "p_subcommands pat")
  case None
  with assms show ?thesis by (simp add: subcommand_part_def)
next
  case subs: (Some subcommands)
  show ?thesis
  proof (cases "at_index args 0")
    case None
    with assms subs show ?thesis by (simp add: subcommand_part_def)
  next
    case cmd: (Some subCmd)
    show ?thesis
    proof (cases "js_get subcommands subCmd")
      case (Own subPattern)
      show ?thesis
      proof (cases "sp_risks subPattern")
        case None
        with assms subs cmd Own show ?thesis
          by (simp add: subcommand_part_def split: if_splits)
      next
        case (Some items)
        with assms subs cmd Own have "f \<in> set (subcommand_risks items args)"
          by (simp add: subcommand_part_def split: if_splits)
        with that subs cmd Own Some show ?thesis
          by (simp add: js_get_Own)
      qed
    next
      case Inherited
      with assms subs cmd show ?thesis
        by (simp add: subcommand_part_def split: if_splits)
    next
      case Absent
      with assms subs cmd show ?thesis
        by (simp add: subcommand_part_def split: if_splits)
    qed
  qed
qed

lemma analyzeRisks_elim:
  assumes "f \<in> set (ra_risks (analyzeRisks t args))"
  obtains (direct) pat items where
      "map_of riskPatterns t = Some pat" and "p_risks pat = Some items" and
      "f \<in> set (direct_risks items args (join (lit '' '') args))"
  | (sub) pat where
      "map_of riskPatterns t = Some pat" and "f \<in> set (subcommand_part pat args)"
proof (cases "map_of riskPatterns t")
  case None
  with assms show ?thesis by (simp add: analyzeRisks_None)
next
  case (Some pat)
  with assms consider
      "f \<in> set (case p_risks pat of
                  Some items \<Rightarrow> direct_risks items args (join (lit '' '') args)
                | None \<Rightarrow> [])"
    | "f \<in> set (subcommand_part pat args)"
    by (auto simp: analyzeRisks_Own)
  then show ?thesis
  proof cases
    case 1
    then obtain items where "p_risks pat = Some items"
      and "f \<in> set (direct_risks items args (join (lit '' '') args))"
      by (cases "p_risks pat") auto
    with Some show ?thesis by (rule direct)
  next
    case 2
    with Some show ?thesis by (rule sub)
  qed
qed

lemma analyzeRisks_flag:
  assumes "f \<in> set (ra_risks (analyzeRisks t args))" and "flag f = Some fl"
  shows "fl \<in> set args"
  using assms(1)
proof (cases rule: analyzeRisks_elim)
  case (direct pat items)
  with assms(2) show ?thesis by (auto dest: direct_risks_flag)
next
  case (sub pat)
  from sub(2) show ?thesis
    by (rule subcommand_part_elim) (use assms(2) in \<open>auto dest: subcommand_risks_flag\<close>)
qed

lemma checkPipeRisks_flag:
  "f \<in> set (checkPipeRisks c t args) \<Longrightarrow> flag f = Some fl \<Longrightarrow> fl \<in> set args"
  by (auto simp: checkPipeRisks_def split: if_splits)

lemma analyzeCommand_risks:
  "parseCommand c = (t, args) \<Longrightarrow>
   risks (analyzeCommand c) =
     (if t = [] then [] else ra_risks (analyzeRisks t args) @ checkPipeRisks c t args)"
  by (simp add: analyzeCommand_def Let_def)

lemma riskPatterns_keys:
  "map_of riskPatterns t = Some pat \<Longrightarrow>
   t \<in> set (map lit [''rm'', ''git'', ''docker'', ''dd'', ''chmod'', ''chown'', ''sudo'',
                     ''curl'', ''wget''])"
  by (drule map_of_SomeD) (auto simp: riskPatterns_def)

lemma riskPatterns_flags_not_empty:
  "map_of riskPatterns t = Some pat \<Longrightarrow> p_risks pat = Some items \<Longrightarrow> e \<in> set items \<Longrightarrow>
   flag e \<noteq> Some []"
  by (drule map_of_SomeD) (auto simp: riskPatterns_def flag_item_def pattern_item_def)

lemma riskPatterns_patterns:
  "map_of riskPatterns t = Some pat \<Longrightarrow> p_risks pat = Some items \<Longrightarrow> e \<in> set items \<Longrightarrow>
   pattern e = Some p \<Longrightarrow> p \<in> {lit ''if=/dev/'', lit ''of=/dev/'', lit ''sudo''}"
  by (drule map_of_SomeD) (auto simp: riskPatterns_def flag_item_def pattern_item_def)

lemma analyzeRisks_pattern:
  assumes "f \<in> set (ra_risks (analyzeRisks t args))" and "pattern f = Some p"
  shows "p \<in> {lit ''if=/dev/'', lit ''of=/dev/'', lit ''sudo''}"
  using assms(1)
proof (cases rule: analyzeRisks_elim)
  case (direct pat items)
  from direct(3) assms(2) obtain e where "e \<in> set items" and "pattern e = Some p"
    by (auto dest: direct_risks_pattern)
  with direct(1,2) show ?thesis
    by (rule riskPatterns_patterns)
next
  case (sub pat)
  from sub(2) show ?thesis
    by (rule subcommand_part_elim) (use assms(2) in \<open>auto dest: subcommand_risks_pattern\<close>)
qed


section \<open>Flag matching\<close>

lemma riskPatterns_subcommand_keys:
  "map_of riskPatterns t = Some pat \<Longrightarrow> p_subcommands pat = Some subcommands \<Longrightarrow>
   map_of subcommands [] = None"
  by (drule map_of_SomeD) (auto simp: riskPatterns_def)

lemma subcommand_part_hit:
  assumes "p_subcommands pat = Some subcommands" and "at_index args 0 = Some subCmd"
    and "subCmd \<noteq> []" and "map_of subcommands subCmd = Some subPattern"
    and "sp_risks subPattern = Some items"
  shows "subcommand_part pat args = subcommand_risks items args"
  using assms by (simp add: subcommand_part_def js_get_def)

text \<open>
  Claim C5. A flag-keyed catalog entry matches by exact membership of its flag among the
  argument tokens, never by substring. For every command: every finding that carries a
  flag carries one that is an argument token; an entry of the tool's own risk list
  yields its finding exactly when its flag is an argument token; and so does an entry of
  the risk list of the subcommand that the first argument selects.
\<close>

theorem flag_entries_match_exact_tokens:
  assumes "parseCommand c = (t, args)"
  shows
   "(\<forall>f\<in>set (risks (analyzeCommand c)). \<forall>fl. flag f = Some fl \<longrightarrow> fl \<in> set args) \<and>
    (\<forall>pat items e fl.
       map_of riskPatterns t = Some pat \<and> p_risks pat = Some items \<and>
       e \<in> set items \<and> flag e = Some fl \<longrightarrow>
       (\<lparr>flag = Some fl, pattern = None, risk = risk e, reason = reason e\<rparr>
          \<in> set (risks (analyzeCommand c)) \<longleftrightarrow> fl \<in> set args)) \<and>
    (\<forall>pat subcommands subCmd subPattern items e fl.
       map_of riskPatterns t = Some pat \<and> p_subcommands pat = Some subcommands \<and>
       at_index args 0 = Some subCmd \<and> map_of subcommands subCmd = Some subPattern \<and>
       sp_risks subPattern = Some items \<and> e \<in> set items \<and> flag e = Some fl \<longrightarrow>
       (\<lparr>flag = Some fl, pattern = None, risk = risk e, reason = reason e\<rparr>
          \<in> set (risks (analyzeCommand c)) \<longleftrightarrow> fl \<in> set args))"
proof -
  let ?all = "risks (analyzeCommand c)"
  have only: "fl \<in> set args" if "f \<in> set ?all" and "flag f = Some fl" for f fl
    using that analyzeCommand_risks [OF assms]
    by (auto split: if_splits dest: analyzeRisks_flag checkPipeRisks_flag)
  have known: "t \<noteq> []" if "map_of riskPatterns t = Some pat" for pat
    using riskPatterns_keys [OF that] by (auto simp: lit_def)
  have direct: "\<lparr>flag = Some fl, pattern = None, risk = risk e, reason = reason e\<rparr> \<in> set ?all"
    if "map_of riskPatterns t = Some pat" and "p_risks pat = Some items"
      and "e \<in> set items" and "flag e = Some fl" and "fl \<in> set args"
    for pat items e fl
  proof -
    from that(1-4) have "fl \<noteq> []"
      using riskPatterns_flags_not_empty by fastforce
    with that(3-5)
    have "\<lparr>flag = Some fl, pattern = None, risk = risk e, reason = reason e\<rparr>
            \<in> set (direct_risks items args (join (lit '' '') args))"
      by (simp add: direct_risks_hit)
    then show ?thesis
      using known [OF that(1)] that(1,2)
      by (simp add: analyzeCommand_risks [OF assms] analyzeRisks_Own)
  qed
  have sub: "\<lparr>flag = Some fl, pattern = None, risk = risk e, reason = reason e\<rparr> \<in> set ?all"
    if "map_of riskPatterns t = Some pat" and "p_subcommands pat = Some subcommands"
      and "at_index args 0 = Some subCmd" and "map_of subcommands subCmd = Some subPattern"
      and "sp_risks subPattern = Some items" and "e \<in> set items" and "flag e = Some fl"
      and "fl \<in> set args"
    for pat subcommands subCmd subPattern items e fl
  proof -
    from that(1,2,4) have "subCmd \<noteq> []"
      using riskPatterns_subcommand_keys by fastforce
    with that(2-5) have "subcommand_part pat args = subcommand_risks items args"
      by (simp add: subcommand_part_hit)
    moreover from that(6-8)
    have "\<lparr>flag = Some fl, pattern = None, risk = risk e, reason = reason e\<rparr>
            \<in> set (subcommand_risks items args)"
      by (simp add: subcommand_risks_hit)
    ultimately show ?thesis
      using known [OF that(1)] that(1)
      by (simp add: analyzeCommand_risks [OF assms] analyzeRisks_Own)
  qed
  show ?thesis
  proof (intro conjI allI impI ballI)
    fix f fl
    assume "f \<in> set ?all" and "flag f = Some fl"
    then show "fl \<in> set args" by (rule only)
  next
    fix pat items e fl
    assume "map_of riskPatterns t = Some pat \<and> p_risks pat = Some items \<and>
            e \<in> set items \<and> flag e = Some fl"
    then show "\<lparr>flag = Some fl, pattern = None, risk = risk e, reason = reason e\<rparr>
                 \<in> set ?all \<longleftrightarrow> fl \<in> set args"
      using only direct by (metis risk_item.select_convs(1))
  next
    fix pat subcommands subCmd subPattern items e fl
    assume "map_of riskPatterns t = Some pat \<and> p_subcommands pat = Some subcommands \<and>
            at_index args 0 = Some subCmd \<and> map_of subcommands subCmd = Some subPattern \<and>
            sp_risks subPattern = Some items \<and> e \<in> set items \<and> flag e = Some fl"
    then show "\<lparr>flag = Some fl, pattern = None, risk = risk e, reason = reason e\<rparr>
                 \<in> set ?all \<longleftrightarrow> fl \<in> set args"
      using only sub by (metis risk_item.select_convs(1))
  qed
qed

lemma riskPatterns_rm:
  "\<exists>pat. map_of riskPatterns (lit ''rm'') = Some pat \<and>
         p_risks pat = Some
           [flag_item ''-rf'' High ''Recursively deletes without confirmation'',
            flag_item ''-f'' High ''Forces deletion, ignores permissions'',
            flag_item ''-r'' Medium ''Recursive deletion; combine with -f for high risk'']"
  by (simp add: riskPatterns_def)

theorem flag_entries_match_exact_tokens_witness:
  "parseCommand (lit ''rm -rfx /tmp'') = (lit ''rm'', [lit ''-rfx'', lit ''/tmp'']) \<and>
   flag_item ''-rf'' High ''Recursively deletes without confirmation''
     \<notin> set (risks (analyzeCommand (lit ''rm -rfx /tmp''))) \<and>
   parseCommand (lit ''rm -rf /tmp'') = (lit ''rm'', [lit ''-rf'', lit ''/tmp'']) \<and>
   flag_item ''-rf'' High ''Recursively deletes without confirmation''
     \<in> set (risks (analyzeCommand (lit ''rm -rf /tmp'')))"
proof -
  let ?e = "flag_item ''-rf'' High ''Recursively deletes without confirmation''"
  have p1: "parseCommand (lit ''rm -rfx /tmp'') = (lit ''rm'', [lit ''-rfx'', lit ''/tmp''])"
    by (simp add: run_parse)
  have p2: "parseCommand (lit ''rm -rf /tmp'') = (lit ''rm'', [lit ''-rf'', lit ''/tmp''])"
    by (simp add: run_parse)
  obtain pat where pat: "map_of riskPatterns (lit ''rm'') = Some pat"
    and items: "p_risks pat = Some
           [?e, flag_item ''-f'' High ''Forces deletion, ignores permissions'',
            flag_item ''-r'' Medium ''Recursive deletion; combine with -f for high risk'']"
    using riskPatterns_rm by blast
  have e: "flag ?e = Some (lit ''-rf'')"
     "\<lparr>flag = Some (lit ''-rf''), pattern = None, risk = risk ?e, reason = reason ?e\<rparr> = ?e"
    by (simp_all add: flag_item_def)
  have hyp: "map_of riskPatterns (lit ''rm'') = Some pat \<and> p_risks pat = Some
           [?e, flag_item ''-f'' High ''Forces deletion, ignores permissions'',
            flag_item ''-r'' Medium ''Recursive deletion; combine with -f for high risk''] \<and>
        ?e \<in> set [?e, flag_item ''-f'' High ''Forces deletion, ignores permissions'',
            flag_item ''-r'' Medium ''Recursive deletion; combine with -f for high risk''] \<and>
        flag ?e = Some (lit ''-rf'')"
    using pat items e(1) by simp
  note miss = flag_entries_match_exact_tokens
    [OF p1, THEN conjunct2, THEN conjunct1, rule_format, OF hyp]
  note hit = flag_entries_match_exact_tokens
    [OF p2, THEN conjunct2, THEN conjunct1, rule_format, OF hyp]
  have "?e \<notin> set (risks (analyzeCommand (lit ''rm -rfx /tmp'')))"
    using miss unfolding e(2) by simp
  moreover have "?e \<in> set (risks (analyzeCommand (lit ''rm -rf /tmp'')))"
    using hit unfolding e(2) by simp
  ultimately show ?thesis
    using p1 p2 by simp
qed


section \<open>Catalog flags that contain whitespace\<close>

text \<open>
  Claim C10. The splitter cuts at whitespace, so no argument token contains a whitespace
  code unit; a flag that contains one (\<^verbatim>\<open>| sh\<close> and \<^verbatim>\<open>| bash\<close> under curl and wget) is never
  an argument token and never the flag of a finding of the catalog matcher; and every
  finding of an analysis result whose flag or pattern is \<^verbatim>\<open>| sh\<close> or \<^verbatim>\<open>| bash\<close> is one of
  the findings of \<open>checkPipeRisks\<close> and none of the catalog matcher.
\<close>

theorem whitespace_flags_never_match:
  assumes "parseCommand c = (t, args)"
  shows
   "(\<forall>a\<in>set args. \<forall>ch\<in>set a. \<not> is_ws ch) \<and>
    (\<forall>fl. (\<exists>ch\<in>set fl. is_ws ch) \<longrightarrow>
       fl \<notin> set args \<and> (\<forall>f\<in>set (ra_risks (analyzeRisks t args)). flag f \<noteq> Some fl)) \<and>
    lit ''| sh'' \<notin> set args \<and> lit ''| bash'' \<notin> set args \<and>
    (\<forall>f\<in>set (risks (analyzeCommand c)).
       flag f = Some (lit ''| sh'') \<or> flag f = Some (lit ''| bash'') \<or>
       pattern f = Some (lit ''| sh'') \<or> pattern f = Some (lit ''| bash'') \<longrightarrow>
       f \<in> set (checkPipeRisks c t args) \<and> f \<notin> set (ra_risks (analyzeRisks t args)))"
proof -
  have tokens: "\<not> is_ws ch" if "a \<in> set args" and "ch \<in> set a" for a ch
    using parseCommand_tokens [OF assms, of a ch] that by simp
  have never: "fl \<notin> set args" if "ch \<in> set fl" and "is_ws ch" for fl ch
    using tokens that by blast
  have sp: "(32::nat) \<in> set (lit ''| sh'')" "(32::nat) \<in> set (lit ''| bash'')" "is_ws 32"
    by (simp_all add: lit_def is_ws_def)
  have sh: "lit ''| sh'' \<notin> set args" and bash: "lit ''| bash'' \<notin> set args"
    using never sp by blast+
  have catalog: "flag f \<noteq> Some fl \<and> pattern f \<noteq> Some fl"
    if "f \<in> set (ra_risks (analyzeRisks t args))" and "fl = lit ''| sh'' \<or> fl = lit ''| bash''"
    for f fl
  proof
    show "flag f \<noteq> Some fl"
      using analyzeRisks_flag [OF that(1), of fl] that(2) sh bash by blast
    show "pattern f \<noteq> Some fl"
      using analyzeRisks_pattern [OF that(1), of fl] that(2) by auto
  qed
  have origin: "f \<in> set (checkPipeRisks c t args) \<and> f \<notin> set (ra_risks (analyzeRisks t args))"
    if "f \<in> set (risks (analyzeCommand c))"
      and "flag f = Some (lit ''| sh'') \<or> flag f = Some (lit ''| bash'') \<or>
           pattern f = Some (lit ''| sh'') \<or> pattern f = Some (lit ''| bash'')"
    for f
  proof -
    from that(2) catalog have out: "f \<notin> set (ra_risks (analyzeRisks t args))"
      by blast
    from that(1) have "f \<in> set (ra_risks (analyzeRisks t args)) \<or>
                       f \<in> set (checkPipeRisks c t args)"
      by (auto simp: analyzeCommand_risks [OF assms] split: if_splits)
    with out show ?thesis by blast
  qed
  show ?thesis
  proof (intro conjI allI impI ballI)
    fix a ch assume "a \<in> set args" and "ch \<in> set a"
    then show "\<not> is_ws ch" by (rule tokens)
  next
    fix fl assume "\<exists>ch\<in>set fl. is_ws ch"
    then show "fl \<notin> set args" using never by blast
  next
    fix fl f
    assume "\<exists>ch\<in>set fl. is_ws ch" and "f \<in> set (ra_risks (analyzeRisks t args))"
    then show "flag f \<noteq> Some fl"
      using never analyzeRisks_flag by blast
  next
    show "lit ''| sh'' \<notin> set args" by (rule sh)
  next
    show "lit ''| bash'' \<notin> set args" by (rule bash)
  next
    fix f
    assume "f \<in> set (risks (analyzeCommand c))"
      and "flag f = Some (lit ''| sh'') \<or> flag f = Some (lit ''| bash'') \<or>
           pattern f = Some (lit ''| sh'') \<or> pattern f = Some (lit ''| bash'')"
    then show "f \<in> set (checkPipeRisks c t args)"
      using origin by blast
  next
    fix f
    assume "f \<in> set (risks (analyzeCommand c))"
      and "flag f = Some (lit ''| sh'') \<or> flag f = Some (lit ''| bash'') \<or>
           pattern f = Some (lit ''| sh'') \<or> pattern f = Some (lit ''| bash'')"
    then show "f \<notin> set (ra_risks (analyzeRisks t args))"
      using origin by blast
  qed
qed

lemma parse_curl_pipe:
  "parseCommand (lit ''curl https://example.com | sh'') =
     (lit ''curl'', [lit ''https://example.com'', lit ''|'', lit ''sh''])"
  by (simp add: run_parse)

lemma risks_curl_pipe:
  "risks (analyzeCommand (lit ''curl https://example.com | sh'')) =
     [\<lparr>flag = None, pattern = Some (lit ''| sh''), risk = High,
       reason = lit ''Piping to shell executes downloaded content without inspection''\<rparr>]"
  unfolding analyzeCommand_def parse_curl_pipe
  by (simp add: run_analyze) (simp add: lit_def startsWith_def)

theorem whitespace_flags_never_match_witness:
  "parseCommand (lit ''curl https://example.com | sh'') =
     (lit ''curl'', [lit ''https://example.com'', lit ''|'', lit ''sh'']) \<and>
   lit ''| sh'' \<notin> set [lit ''https://example.com'', lit ''|'', lit ''sh''] \<and>
   set (risks (analyzeCommand (lit ''curl https://example.com | sh''))) \<subseteq>
     set (checkPipeRisks (lit ''curl https://example.com | sh'') (lit ''curl'')
            [lit ''https://example.com'', lit ''|'', lit ''sh''])"
  using whitespace_flags_never_match [OF parse_curl_pipe]
  by (simp add: parse_curl_pipe risks_curl_pipe)


section \<open>The cross-cutting checks\<close>







section \<open>Directed suggestions\<close>

lemma first_suggestion_None:
  "first_suggestion es c = None \<longleftrightarrow> (\<forall>e\<in>set es. \<not> str_includes c (fst e))"
  by (induction es c rule: first_suggestion.induct) auto

lemma first_suggestion_Some:
  "first_suggestion es c = Some s \<longleftrightarrow>
   (\<exists>i<length es. s = snd (es ! i) \<and> str_includes c (fst (es ! i)) \<and>
      (\<forall>j<i. \<not> str_includes c (fst (es ! j))))"
proof (induction es c rule: first_suggestion.induct)
  case (1 c)
  show ?case by simp
next
  case (2 key v entries c)
  show ?case
  proof (cases "str_includes c key")
    case True
    have "(\<exists>i<length ((key, v) # entries). s = snd (((key, v) # entries) ! i) \<and>
             str_includes c (fst (((key, v) # entries) ! i)) \<and>
             (\<forall>j<i. \<not> str_includes c (fst (((key, v) # entries) ! j)))) \<longleftrightarrow> s = v"
    proof
      assume "\<exists>i<length ((key, v) # entries). s = snd (((key, v) # entries) ! i) \<and>
             str_includes c (fst (((key, v) # entries) ! i)) \<and>
             (\<forall>j<i. \<not> str_includes c (fst (((key, v) # entries) ! j)))"
      then obtain i where i: "s = snd (((key, v) # entries) ! i)"
        and first: "\<forall>j<i. \<not> str_includes c (fst (((key, v) # entries) ! j))"
        by blast
      have "i = 0"
      proof (rule ccontr)
        assume "i \<noteq> 0"
        then have "0 < i" by simp
        with first have "\<not> str_includes c (fst (((key, v) # entries) ! 0))" by blast
        with True show False by simp
      qed
      with i show "s = v" by simp
    next
      assume "s = v"
      with True show "\<exists>i<length ((key, v) # entries). s = snd (((key, v) # entries) ! i) \<and>
             str_includes c (fst (((key, v) # entries) ! i)) \<and>
             (\<forall>j<i. \<not> str_includes c (fst (((key, v) # entries) ! j)))"
        by (intro exI [of _ 0]) simp
    qed
    with True show ?thesis by auto
  next
    case False
    have "(\<exists>i<length ((key, v) # entries). s = snd (((key, v) # entries) ! i) \<and>
             str_includes c (fst (((key, v) # entries) ! i)) \<and>
             (\<forall>j<i. \<not> str_includes c (fst (((key, v) # entries) ! j)))) \<longleftrightarrow>
          (\<exists>i<length entries. s = snd (entries ! i) \<and> str_includes c (fst (entries ! i)) \<and>
             (\<forall>j<i. \<not> str_includes c (fst (entries ! j))))"
      (is "?L \<longleftrightarrow> ?R")
    proof
      assume ?L
      then obtain i where i: "i < length ((key, v) # entries)"
        "s = snd (((key, v) # entries) ! i)" "str_includes c (fst (((key, v) # entries) ! i))"
        "\<forall>j<i. \<not> str_includes c (fst (((key, v) # entries) ! j))"
        by blast
      from i(3) False have "i \<noteq> 0" by (cases i) auto
      then obtain k where k: "i = Suc k" by (cases i) auto
      have "\<forall>j<k. \<not> str_includes c (fst (entries ! j))"
      proof (intro allI impI)
        fix j assume "j < k"
        then have "Suc j < i" using k by simp
        with i(4) have "\<not> str_includes c (fst (((key, v) # entries) ! Suc j))" by blast
        then show "\<not> str_includes c (fst (entries ! j))" by simp
      qed
      with i(1-3) k show ?R
        by (intro exI [of _ k]) simp
    next
      assume ?R
      then obtain k where k: "k < length entries" "s = snd (entries ! k)"
        "str_includes c (fst (entries ! k))" "\<forall>j<k. \<not> str_includes c (fst (entries ! j))"
        by blast
      have "\<forall>j<Suc k. \<not> str_includes c (fst (((key, v) # entries) ! j))"
      proof (intro allI impI)
        fix j assume "j < Suc k"
        then show "\<not> str_includes c (fst (((key, v) # entries) ! j))"
          using False k(4) by (cases j) auto
      qed
      with k(1-3) show ?L
        by (intro exI [of _ "Suc k"]) simp
    qed
    with False "2.IH" show ?thesis by simp
  qed
qed


lemma trim_eq_Nil_iff: "trim s = [] \<longleftrightarrow> (\<forall>c\<in>set s. is_ws c)"
proof
  assume e: "trim s = []"
  show "\<forall>c\<in>set s. is_ws c"
  proof (cases "dropWhile is_ws s")
    case Nil
    then show ?thesis by simp
  next
    case (Cons d rest)
    then have "\<not> is_ws d"
      using hd_dropWhile [of is_ws s] by simp
    moreover from e have "\<forall>x\<in>set (dropWhile is_ws s). is_ws x"
      by (simp add: trim_def)
    ultimately show ?thesis
      using Cons by simp
  qed
next
  assume "\<forall>c\<in>set s. is_ws c"
  then show "trim s = []" by (rule trim_all_ws)
qed

lemma str_includes_subset: "str_includes s p \<Longrightarrow> set p \<subseteq> set s"
  by (auto simp: str_includes_iff)

lemma suggestions_keys_not_ws: "e \<in> set suggestions \<Longrightarrow> \<exists>ch\<in>set (fst e). \<not> is_ws ch"
  by (auto simp: suggestions_def lit_def is_ws_def)

lemma getSuggestion_blank:
  assumes "trim c = []"
  shows "getSuggestion c = None"
proof -
  have "\<not> str_includes c (fst e)" if "e \<in> set suggestions" for e
  proof
    assume "str_includes c (fst e)"
    then have "set (fst e) \<subseteq> set c" by (rule str_includes_subset)
    moreover from assms have "\<forall>ch\<in>set c. is_ws ch"
      by (simp add: trim_eq_Nil_iff)
    ultimately show False
      using suggestions_keys_not_ws [OF that] by blast
  qed
  then show ?thesis
    by (simp add: getSuggestion_def first_suggestion_None)
qed

lemma trim_starts_with_token:
  assumes "trim s \<noteq> []"
  shows "\<not> is_ws (hd (trim s))"
proof -
  let ?x = "dropWhile is_ws s"
  have "rev (takeWhile is_ws (rev ?x) @ dropWhile is_ws (rev ?x)) = ?x"
    by (simp only: takeWhile_dropWhile_id rev_rev_ident)
  then have x: "?x = trim s @ rev (takeWhile is_ws (rev ?x))"
    unfolding trim_def rev_append by (rule sym)
  with assms have "?x \<noteq> []"
    by (metis Nil_is_append_conv)
  then have "\<not> is_ws (hd ?x)"
    by (rule hd_dropWhile)
  moreover from x assms have "hd ?x = hd (trim s)"
    by (metis hd_append2)
  ultimately show ?thesis by simp
qed

lemma parseCommand_tool_Nil_iff: "fst (parseCommand c) = [] \<longleftrightarrow> trim c = []"
proof (cases "trim c = []")
  case True
  then show ?thesis by (simp add: parseCommand_def)
next
  case False
  then have first: "\<not> is_ws (hd (trim c))"
    by (rule trim_starts_with_token)
  have "fst (parseCommand c) \<noteq> []"
  proof (cases "dropWhile (\<lambda>ch. \<not> is_ws ch) (trim c)")
    case Nil
    have "split_ws (trim c) = [trim c]"
      by (subst split_ws.simps) (simp only: Nil list.simps)
    with False show ?thesis by (simp add: parseCommand_def)
  next
    case (Cons d rest)
    have "split_ws (trim c) =
        takeWhile (\<lambda>ch. \<not> is_ws ch) (trim c) # split_ws (dropWhile is_ws rest)"
      by (subst split_ws.simps) (simp only: Cons list.simps)
    moreover have "takeWhile (\<lambda>ch. \<not> is_ws ch) (trim c) \<noteq> []"
      using False first by (cases "trim c") auto
    ultimately show ?thesis
      using False by (simp add: parseCommand_def)
  qed
  with False show ?thesis by simp
qed

lemma analyzeCommand_directed: "directedSuggestion (analyzeCommand c) = getSuggestion c"
proof -
  obtain t args where p: "parseCommand c = (t, args)"
    by (cases "parseCommand c") auto
  show ?thesis
  proof (cases "t = []")
    case True
    with p have "trim c = []"
      using parseCommand_tool_Nil_iff [of c] by simp
    then have "getSuggestion c = None"
      by (rule getSuggestion_blank)
    with p True show ?thesis
      by (simp add: analyzeCommand_def)
  next
    case False
    with p show ?thesis
      by (simp add: analyzeCommand_def Let_def)
  qed
qed

text \<open>
  Claim C9. The directed suggestion for a raw command is the rule of the first entry of
  the suggestion catalog, in declaration order, whose trigger occurs in the raw command
  as a plain substring, and it is null exactly when no trigger occurs; it is also the
  \<open>directedSuggestion\<close> of the analysis result.
\<close>

theorem directed_suggestion_is_first_match:
  "(getSuggestion c = None \<longleftrightarrow> (\<forall>e\<in>set suggestions. \<not> str_includes c (fst e))) \<and>
   (\<forall>s. getSuggestion c = Some s \<longleftrightarrow>
      (\<exists>i<length suggestions. s = snd (suggestions ! i) \<and>
         str_includes c (fst (suggestions ! i)) \<and>
         (\<forall>j<i. \<not> str_includes c (fst (suggestions ! j))))) \<and>
   (\<forall>k. str_includes c k \<longleftrightarrow> (\<exists>pre post. c = pre @ k @ post)) \<and>
   directedSuggestion (analyzeCommand c) = getSuggestion c"
  unfolding getSuggestion_def
  using first_suggestion_None [of suggestions c] first_suggestion_Some [of suggestions c]
    str_includes_iff [of c] analyzeCommand_directed [of c, unfolded getSuggestion_def]
  by blast

theorem directed_suggestion_is_first_match_witness:
  "fst (suggestions ! 0) = lit ''rm -rf'' \<and>
   fst (suggestions ! 2) = lit ''git push --force'' \<and>
   str_includes (lit ''git push --force && rm -rf build'') (lit ''rm -rf'') \<and>
   str_includes (lit ''git push --force && rm -rf build'') (lit ''git push --force'') \<and>
   getSuggestion (lit ''git push --force && rm -rf build'') = Some (snd (suggestions ! 0))"
proof -
  let ?c = "lit ''git push --force && rm -rf build''"
  have keys: "fst (suggestions ! 0) = lit ''rm -rf''"
    "fst (suggestions ! 2) = lit ''git push --force''"
    by (simp_all add: suggestions_def)
  have both: "str_includes ?c (lit ''rm -rf'')" "str_includes ?c (lit ''git push --force'')"
    by (simp_all add: lit_def startsWith_def)
  have len: "0 < length suggestions"
    by (simp add: suggestions_def)
  have "\<exists>i<length suggestions. snd (suggestions ! 0) = snd (suggestions ! i) \<and>
          str_includes ?c (fst (suggestions ! i)) \<and>
          (\<forall>j<i. \<not> str_includes ?c (fst (suggestions ! j)))"
    using len both(1) keys(1) by (intro exI [of _ 0]) simp
  then have "getSuggestion ?c = Some (snd (suggestions ! 0))"
    using directed_suggestion_is_first_match [of ?c] by blast
  with keys both show ?thesis by simp
qed


section \<open>Scenarios\<close>

lemma parse_git_push_force:
  "parseCommand (lit ''git push --force'') = (lit ''git'', [lit ''push'', lit ''--force''])"
  by (simp add: run_parse)

lemma getSuggestion_git_push_force:
  "getSuggestion (lit ''git push --force'') =
     Some \<lparr>dangerous = lit ''git push --force'', safer = lit ''git push --force-with-lease'',
           s_explanation =
             lit ''Only force-push if remote hasn't changed; safer for shared repos''\<rparr>"
  by (simp add: getSuggestion_def suggestions_def) (simp add: lit_def startsWith_def)

lemma suggestions_git_push_force:
  "res_suggestions (analyzeCommand (lit ''git push --force'')) =
     [lit ''Only force-push if remote hasn't changed; safer for shared repos'']"
  unfolding analyzeCommand_def parse_git_push_force
  by (simp add: getSuggestion_git_push_force getContextualSuggestion_def Let_def)

text \<open>
  Claim C6 fails as stated: the only element of the suggestions list for
  \<^verbatim>\<open>git push --force\<close> is the rule's explanation text, in which \<^verbatim>\<open>--force-with-lease\<close> does
  not occur.
\<close>

theorem git_push_force_suggestions_counterexample:
  "res_suggestions (analyzeCommand (lit ''git push --force'')) =
     [lit ''Only force-push if remote hasn't changed; safer for shared repos''] \<and>
   \<not> str_includes (lit ''Only force-push if remote hasn't changed; safer for shared repos'')
       (lit ''--force-with-lease'')"
  by (simp add: suggestions_git_push_force) (simp add: lit_def startsWith_def)

text \<open>
  Claim C6, amended. The analysis of \<^verbatim>\<open>git push --force\<close> has \<open>riskLevel\<close> high, and the
  \<open>safer\<close> text of its directed suggestion is \<^verbatim>\<open>git push --force-with-lease\<close>; the
  suggestions list holds that rule's explanation text.
\<close>

theorem git_push_force_analysis:
  "riskLevel (analyzeCommand (lit ''git push --force'')) = High \<and>
   map_option safer (directedSuggestion (analyzeCommand (lit ''git push --force''))) =
     Some (lit ''git push --force-with-lease'') \<and>
   res_suggestions (analyzeCommand (lit ''git push --force'')) =
     [lit ''Only force-push if remote hasn't changed; safer for shared repos'']"
proof -
  have "risks (analyzeCommand (lit ''git push --force'')) =
          [flag_item ''--force'' High ''Overwrites remote history; may affect team'']"
    unfolding analyzeCommand_def parse_git_push_force
    by (simp add: run_analyze)
  then have "riskLevel (analyzeCommand (lit ''git push --force'')) = High"
    by (simp add: analyzeCommand_riskLevel getRiskLevel_def flag_item_def)
  then show ?thesis
    by (simp add: analyzeCommand_directed getSuggestion_git_push_force
          suggestions_git_push_force)
qed

text \<open>
  Claim C3 against the code: the matcher reads only the \<^verbatim>\<open>risks\<close> of the object stored
  under \<^verbatim>\<open>args[0]\<close>. Docker's \<^verbatim>\<open>system\<close> object has none (its list sits one level deeper,
  under \<^verbatim>\<open>prune\<close>), so \<^verbatim>\<open>docker system prune --volumes\<close> yields no finding although the
  catalog declares \<^verbatim>\<open>--volumes\<close> as high.
\<close>

theorem docker_system_prune_volumes_unmatched:
  "parseCommand (lit ''docker system prune --volumes'') =
     (lit ''docker'', [lit ''system'', lit ''prune'', lit ''--volumes'']) \<and>
   ra_risks (analyzeRisks (lit ''docker'') [lit ''system'', lit ''prune'', lit ''--volumes''])
     = [] \<and>
   risks (analyzeCommand (lit ''docker system prune --volumes'')) = [] \<and>
   riskLevel (analyzeCommand (lit ''docker system prune --volumes'')) = Low"
proof -
  have p: "parseCommand (lit ''docker system prune --volumes'') =
     (lit ''docker'', [lit ''system'', lit ''prune'', lit ''--volumes''])"
    by (simp add: run_parse)
  have m: "ra_risks (analyzeRisks (lit ''docker'')
             [lit ''system'', lit ''prune'', lit ''--volumes'']) = []"
    by (simp add: run_analyze)
  have r: "risks (analyzeCommand (lit ''docker system prune --volumes'')) = []"
    by (simp add: analyzeCommand_risks [OF p] m) (simp add: checkPipeRisks_def)
  from p m r show ?thesis
    by (simp add: analyzeCommand_riskLevel getRiskLevel_def)
qed

lemma explanation_is_string:
  assumes "fst (parseCommand c) \<notin> set object_prototype_keys"
  shows "\<exists>text. explanation (analyzeCommand c) = JString text"
proof -
  obtain t args where p: "parseCommand c = (t, args)"
    by (cases "parseCommand c") auto
  with assms have "\<exists>text. generateExplanation t args = JString text"
    by (simp add: generateExplanation_def js_get_def Let_def split: option.splits)
  with p show ?thesis
    by (simp add: analyzeCommand_def Let_def)
qed

text \<open>
  Claim C2 against the code: for the command \<^verbatim>\<open>constructor\<close> the lookup
  \<^verbatim>\<open>explanations[tool]\<close> finds the member of \<^verbatim>\<open>Object.prototype\<close> of that name, so the
  \<open>explanation\<close> of the result is that function and not a string; the matcher reports
  the tool as found for the same reason.
\<close>

theorem constructor_explanation_not_a_string:
  "parseCommand (lit ''constructor'') = (lit ''constructor'', []) \<and>
   explanation (analyzeCommand (lit ''constructor'')) = PrototypeMember (lit ''constructor'') \<and>
   found (analyzeRisks (lit ''constructor'') []) = True"
proof -
  have p: "parseCommand (lit ''constructor'') = (lit ''constructor'', [])"
    by (simp add: run_parse)
  have e: "generateExplanation (lit ''constructor'') [] = PrototypeMember (lit ''constructor'')"
    by (simp add: generateExplanation_def explanations_def js_get_def
          object_prototype_keys_def Let_def)
  have f: "found (analyzeRisks (lit ''constructor'') []) = True"
    by (simp add: analyzeRisks_def riskPatterns_def js_get_def object_prototype_keys_def)
  from p e f show ?thesis
    by (simp add: analyzeCommand_def Let_def)
qed


section \<open>Tools outside the catalog\<close>

lemma riskPatterns_None:
  "map_of riskPatterns t = None \<Longrightarrow>
   t \<notin> set (map lit [''rm'', ''git'', ''docker'', ''dd'', ''chmod'', ''chown'', ''sudo'',
                     ''curl'', ''wget''])"
  by (auto simp: riskPatterns_def split: if_splits)

lemma explanations_None:
  "t \<notin> set (map lit [''rm'', ''mv'', ''cp'', ''git'', ''docker'', ''chmod'', ''chown'', ''dd'',
                     ''curl'', ''wget'', ''npm'', ''node'']) \<Longrightarrow>
   map_of (explanations argStr) t = None"
  by (simp add: explanations_def)

lemma parse_mv:
  "parseCommand (lit ''mv a b'') = (lit ''mv'', [lit ''a'', lit ''b''])"
  by (simp add: run_parse)

text \<open>
  Claim C8 fails as stated: \<^verbatim>\<open>mv\<close> is not in the pattern catalog, yet its explanation is
  the template that \<^verbatim>\<open>generateExplanation\<close> holds for \<^verbatim>\<open>mv\<close>, not the generic one.
\<close>

theorem unknown_tool_explanation_counterexample:
  "map_of riskPatterns (lit ''mv'') = None \<and>
   parseCommand (lit ''mv a b'') = (lit ''mv'', [lit ''a'', lit ''b'']) \<and>
   explanation (analyzeCommand (lit ''mv a b'')) =
     JString (lit ''Moves/renames files. If target exists, it will be overwritten.'') \<and>
   lit ''Moves/renames files. If target exists, it will be overwritten.'' \<noteq>
     lit ''Executes: mv a b''"
proof -
  have "generateExplanation (lit ''mv'') [lit ''a'', lit ''b''] =
          JString (lit ''Moves/renames files. If target exists, it will be overwritten.'')"
    by (simp add: generateExplanation_def explanations_def js_get_def Let_def)
  then have "explanation (analyzeCommand (lit ''mv a b'')) =
          JString (lit ''Moves/renames files. If target exists, it will be overwritten.'')"
    by (simp add: analyzeCommand_def parse_mv Let_def)
  moreover have "map_of riskPatterns (lit ''mv'') = None"
    by (simp add: riskPatterns_def)
  ultimately show ?thesis
    by (simp add: parse_mv)
qed

text \<open>
  Claim C8, amended. For every tool that is neither a key of the pattern catalog nor the
  name of a member of \<^verbatim>\<open>Object.prototype\<close>, the matcher returns \<open>found = False\<close> with no
  findings and the dry-run is the generic "Would execute: tool args"; the explanation is
  the generic "Executes: tool args" when the tool is also none of mv, cp, npm and node,
  which have explanation templates of their own. For a command with such a tool these
  are the findings, the dry-run and the explanation of the analysis result.
\<close>

theorem unknown_tool_generic_fallback:
  assumes "map_of riskPatterns t = None" and "t \<notin> set object_prototype_keys"
  shows
   "found (analyzeRisks t args) = False \<and> ra_risks (analyzeRisks t args) = [] \<and>
    generateDryRun t args = lit ''Would execute: '' @ t @ lit '' '' @ join (lit '' '') args \<and>
    (t \<notin> set (map lit [''mv'', ''cp'', ''npm'', ''node'']) \<longrightarrow>
       generateExplanation t args =
         JString (lit ''Executes: '' @ t @ lit '' '' @ join (lit '' '') args)) \<and>
    (\<forall>c. parseCommand c = (t, args) \<and> t \<noteq> [] \<longrightarrow>
       risks (analyzeCommand c) = [] \<and>
       dryRun (analyzeCommand c) = generateDryRun t args \<and>
       explanation (analyzeCommand c) = generateExplanation t args)"
proof -
  note keys = riskPatterns_None [OF assms(1)]
  have matcher: "analyzeRisks t args =
      \<lparr>found = False, ra_tool = t, ra_risks = [], description = None\<rparr>"
    using assms by (simp add: analyzeRisks_def js_get_def)
  have dry: "generateDryRun t args =
      lit ''Would execute: '' @ t @ lit '' '' @ join (lit '' '') args"
    using keys by (simp add: generateDryRun_def Let_def)
  have expl: "generateExplanation t args =
      JString (lit ''Executes: '' @ t @ lit '' '' @ join (lit '' '') args)"
    if "t \<notin> set (map lit [''mv'', ''cp'', ''npm'', ''node''])"
  proof -
    from keys that have "map_of (explanations (join (lit '' '') args)) t = None"
      by (intro explanations_None) simp
    with assms(2) show ?thesis
      by (simp add: generateExplanation_def js_get_def Let_def)
  qed
  have pipe: "checkPipeRisks c t args = []" for c
    using keys by (simp add: checkPipeRisks_def)
  have result: "risks (analyzeCommand c) = [] \<and>
       dryRun (analyzeCommand c) = generateDryRun t args \<and>
       explanation (analyzeCommand c) = generateExplanation t args"
    if "parseCommand c = (t, args) \<and> t \<noteq> []" for c
    using that by (simp add: analyzeCommand_def Let_def matcher pipe)
  from matcher dry expl result show ?thesis
    by simp
qed

lemma parse_ls:
  "parseCommand (lit ''ls -la'') = (lit ''ls'', [lit ''-la''])"
  by (simp add: run_parse)

theorem unknown_tool_generic_fallback_witness:
  "map_of riskPatterns (lit ''ls'') = None \<and>
   lit ''ls'' \<notin> set object_prototype_keys \<and>
   lit ''ls'' \<notin> set (map lit [''mv'', ''cp'', ''npm'', ''node'']) \<and>
   parseCommand (lit ''ls -la'') = (lit ''ls'', [lit ''-la'']) \<and>
   found (analyzeRisks (lit ''ls'') [lit ''-la'']) = False \<and>
   risks (analyzeCommand (lit ''ls -la'')) = [] \<and>
   dryRun (analyzeCommand (lit ''ls -la'')) = lit ''Would execute: ls -la'' \<and>
   explanation (analyzeCommand (lit ''ls -la'')) = JString (lit ''Executes: ls -la'')"
proof -
  have a: "map_of riskPatterns (lit ''ls'') = None"
    by (simp add: riskPatterns_def)
  have b: "lit ''ls'' \<notin> set object_prototype_keys"
    by (simp add: object_prototype_keys_def)
  have c: "lit ''ls'' \<notin> set (map lit [''mv'', ''cp'', ''npm'', ''node''])"
    by simp
  have d: "lit ''ls'' \<noteq> []"
    by simp
  have texts: "lit ''Would execute: '' @ lit ''ls'' @ lit '' '' @ join (lit '' '') [lit ''-la'']
                 = lit ''Would execute: ls -la''"
     "lit ''Executes: '' @ lit ''ls'' @ lit '' '' @ join (lit '' '') [lit ''-la'']
                 = lit ''Executes: ls -la''"
    by (simp_all add: lit_def)
  show ?thesis
    using unknown_tool_generic_fallback [OF a b, of "[lit ''-la'']"] a b c d parse_ls texts
    by simp
qed


end
